theory Spec2Isabelle
  imports Main
begin

section \<open>Data model\<close>

text \<open>
  Permissions and role names are plain JavaScript strings (\<^verbatim>\<open>types.ts\<close>). A role
  document carries its direct permissions and, optionally, the name of the single role it
  inherits from (\<^verbatim>\<open>inherits?: Role\<close>, as the inheritance tests build it).
\<close>

type_synonym Permission = string
type_synonym Role = string

record RoleDocument =
  name :: string
  permissions :: "Permission list"
  inherits :: "Role option"

text \<open>
  The adapter contract \<^verbatim>\<open>RBACAdapter\<close>. The three lookups are asynchronous in the
  source; here each is the function from the argument to the value its promise resolves to
  (\<open>None\<close> for \<^verbatim>\<open>null\<close>). A lookup that rejects is outside this model: the
  resolver adds no handling of its own for it.
\<close>

record RBACAdapter =
  findRole :: "Role \<Rightarrow> RoleDocument option"
  getUserRole :: "string \<Rightarrow> Role option"
  getRolePermissions :: "Role \<Rightarrow> Permission list"

text \<open>
  \<^verbatim>\<open>InheritanceOptions\<close>: \<^verbatim>\<open>maxDepth?: number\<close>, defaulting to 10 where it is
  destructured. The number is taken to be an integer, of either sign.
\<close>

record InheritanceOptions =
  maxDepth :: "int option"

definition maxDepthOf :: "InheritanceOptions \<Rightarrow> int" where
  "maxDepthOf options = (case maxDepth options of None \<Rightarrow> 10 | Some m \<Rightarrow> m)"

text \<open>
  The two \<^verbatim>\<open>throw new Error(...)\<close> sites of the resolver, with the values their messages
  interpolate.
\<close>

datatype error =
    DepthExceeded int Role
  | CircularInheritance Role

text \<open>
  JavaScript truthiness of an optional string, as tested by \<^verbatim>\<open>if (role.inherits)\<close> and
  \<^verbatim>\<open>if (!role)\<close>: \<^verbatim>\<open>undefined\<close>, \<^verbatim>\<open>null\<close> and the empty string are falsy.
\<close>

definition truthy :: "string option \<Rightarrow> bool" where
  "truthy s = (case s of None \<Rightarrow> False | Some v \<Rightarrow> v \<noteq> [])"

text \<open>
  \<^verbatim>\<open>Set.prototype.add\<close> on a set kept in insertion order, which is the order
  \<^verbatim>\<open>Array.from\<close> reads it back in.
\<close>

definition setAdd :: "'a list \<Rightarrow> 'a \<Rightarrow> 'a list" where
  "setAdd s x = (if x \<in> set s then s else s @ [x])"

section \<open>The inheritance resolver\<close>

text \<open>
  \<^verbatim>\<open>resolveRolePermissions\<close>: the inner \<^verbatim>\<open>traverse\<close> closes over the mutable sets
  \<^verbatim>\<open>visited\<close> and \<^verbatim>\<open>allPermissions\<close>; the model passes them along and returns them.
  The checks are in the source's order: depth first, then the visited set.
\<close>

function resolveTraverse ::
  "RBACAdapter \<Rightarrow> int \<Rightarrow> Role \<Rightarrow> int \<Rightarrow> string set \<times> Permission list
     \<Rightarrow> error + (string set \<times> Permission list)" where
  "resolveTraverse adapter maxD currentRole depth (visited, allPermissions) =
     (if depth > maxD then Inl (DepthExceeded maxD currentRole)
      else if currentRole \<in> visited then Inl (CircularInheritance currentRole)
      else
        (case findRole adapter currentRole of
           None \<Rightarrow> Inr (insert currentRole visited, allPermissions)
         | Some role \<Rightarrow>
             (case inherits role of
                None \<Rightarrow>
                  Inr (insert currentRole visited, foldl setAdd allPermissions (permissions role))
              | Some parent \<Rightarrow>
                  if parent \<noteq> [] then
                    resolveTraverse adapter maxD parent (depth + 1)
                      (insert currentRole visited, foldl setAdd allPermissions (permissions role))
                  else
                    Inr (insert currentRole visited,
                         foldl setAdd allPermissions (permissions role)))))"
  by pat_completeness auto
termination
  by (relation "measure (\<lambda>(adapter, maxD, currentRole, depth, st). nat (maxD + 1 - depth))") auto

definition resolveRolePermissions ::
  "RBACAdapter \<Rightarrow> Role \<Rightarrow> InheritanceOptions \<Rightarrow> error + Permission list" where
  "resolveRolePermissions adapter roleName options =
     (case resolveTraverse adapter (maxDepthOf options) roleName 0 ({}, []) of
        Inl e \<Rightarrow> Inl e
      | Inr (visited, allPermissions) \<Rightarrow> Inr allPermissions)"

text \<open>
  \<^verbatim>\<open>inheritsFrom\<close>: the same walk, with \<^verbatim>\<open>return false\<close> where the resolver throws and
  the strict comparison \<^verbatim>\<open>role.inherits === parentRole\<close> before the recursion.
\<close>

function inheritsTraverse ::
  "RBACAdapter \<Rightarrow> int \<Rightarrow> Role \<Rightarrow> Role \<Rightarrow> int \<Rightarrow> string set \<Rightarrow> bool" where
  "inheritsTraverse adapter maxD parentRole currentRole depth visited =
     (if depth > maxD then False
      else if currentRole \<in> visited then False
      else
        (case findRole adapter currentRole of
           None \<Rightarrow> False
         | Some role \<Rightarrow>
             if inherits role = Some parentRole then True
             else
               (case inherits role of
                  None \<Rightarrow> False
                | Some parent \<Rightarrow>
                    if parent \<noteq> [] then
                      inheritsTraverse adapter maxD parentRole parent (depth + 1)
                        (insert currentRole visited)
                    else False)))"
  by pat_completeness auto
termination
  by (relation "measure (\<lambda>(adapter, maxD, parentRole, currentRole, depth, visited).
        nat (maxD + 1 - depth))") auto

definition inheritsFrom ::
  "RBACAdapter \<Rightarrow> Role \<Rightarrow> Role \<Rightarrow> InheritanceOptions \<Rightarrow> bool" where
  "inheritsFrom adapter roleName parentRole options =
     inheritsTraverse adapter (maxDepthOf options) parentRole roleName 0 {}"

text \<open>
  \<^verbatim>\<open>getRoleHierarchy\<close>: the name is pushed onto \<^verbatim>\<open>hierarchy\<close> before the role is
  looked up; \<^verbatim>\<open>role?.inherits\<close> is falsy for a missing role as for a missing parent.
\<close>

function hierarchyTraverse ::
  "RBACAdapter \<Rightarrow> int \<Rightarrow> Role \<Rightarrow> int \<Rightarrow> Role list \<times> string set
     \<Rightarrow> error + (Role list \<times> string set)" where
  "hierarchyTraverse adapter maxD currentRole depth (hierarchy, visited) =
     (if depth > maxD then Inl (DepthExceeded maxD currentRole)
      else if currentRole \<in> visited then Inl (CircularInheritance currentRole)
      else
        (case findRole adapter currentRole of
           None \<Rightarrow> Inr (hierarchy @ [currentRole], insert currentRole visited)
         | Some role \<Rightarrow>
             (case inherits role of
                None \<Rightarrow> Inr (hierarchy @ [currentRole], insert currentRole visited)
              | Some parent \<Rightarrow>
                  if parent \<noteq> [] then
                    hierarchyTraverse adapter maxD parent (depth + 1)
                      (hierarchy @ [currentRole], insert currentRole visited)
                  else Inr (hierarchy @ [currentRole], insert currentRole visited))))"
  by pat_completeness auto
termination
  by (relation "measure (\<lambda>(adapter, maxD, currentRole, depth, st). nat (maxD + 1 - depth))") auto

definition getRoleHierarchy ::
  "RBACAdapter \<Rightarrow> Role \<Rightarrow> InheritanceOptions \<Rightarrow> error + Role list" where
  "getRoleHierarchy adapter roleName options =
     (case hierarchyTraverse adapter (maxDepthOf options) roleName 0 ([], {}) of
        Inl e \<Rightarrow> Inl e
      | Inr (hierarchy, visited) \<Rightarrow> Inr hierarchy)"

section \<open>The store of the inheritance tests\<close>

text \<open>
  \<^verbatim>\<open>mockAdapter\<close> of \<^verbatim>\<open>inheritance.test.ts\<close>: \<^verbatim>\<open>findRole\<close> reads a map of role
  documents; the other two members are bare mocks the resolver never calls. A later
  \<^verbatim>\<open>roles.set\<close> shadows an earlier one, so entries a test adds are put in front.
\<close>

definition mockAdapter :: "(string \<times> RoleDocument) list \<Rightarrow> RBACAdapter" where
  "mockAdapter roles =
     \<lparr>findRole = map_of roles, getUserRole = (\<lambda>userId. None), getRolePermissions = (\<lambda>r. [])\<rparr>"

definition roleDoc :: "string \<Rightarrow> Permission list \<Rightarrow> Role option \<Rightarrow> string \<times> RoleDocument" where
  "roleDoc n ps parent = (n, \<lparr>name = n, permissions = ps, inherits = parent\<rparr>)"

text \<open>The hierarchy set up before each test: super-admin, admin, manager, user.\<close>

definition baseRoles :: "(string \<times> RoleDocument) list" where
  "baseRoles =
     [roleDoc ''user'' [''users.read'', ''profile.read''] None,
      roleDoc ''manager'' [''users.update'', ''reports.read''] (Some ''user''),
      roleDoc ''admin'' [''users.delete'', ''settings.read''] (Some ''manager''),
      roleDoc ''super-admin'' [''system.admin''] (Some ''admin'')]"

text \<open>The two mutual parents of the test "should detect circular inheritance".\<close>

definition circularRoles :: "(string \<times> RoleDocument) list" where
  "circularRoles =
     [roleDoc ''role-a'' [''perm-a''] (Some ''role-b''),
      roleDoc ''role-b'' [''perm-b''] (Some ''role-a'')] @ baseRoles"

text \<open>
  The loop of the test "should enforce max depth limit": fifteen roles
  \<^verbatim>\<open>level-0\<close> to \<^verbatim>\<open>level-14\<close>, each with one permission and each but the first
  inheriting from the one before it.
\<close>

definition levelRoles :: "(string \<times> RoleDocument) list" where
  "levelRoles =
     [roleDoc ''level-14'' [''perm-14''] (Some ''level-13''),
      roleDoc ''level-13'' [''perm-13''] (Some ''level-12''),
      roleDoc ''level-12'' [''perm-12''] (Some ''level-11''),
      roleDoc ''level-11'' [''perm-11''] (Some ''level-10''),
      roleDoc ''level-10'' [''perm-10''] (Some ''level-9''),
      roleDoc ''level-9'' [''perm-9''] (Some ''level-8''),
      roleDoc ''level-8'' [''perm-8''] (Some ''level-7''),
      roleDoc ''level-7'' [''perm-7''] (Some ''level-6''),
      roleDoc ''level-6'' [''perm-6''] (Some ''level-5''),
      roleDoc ''level-5'' [''perm-5''] (Some ''level-4''),
      roleDoc ''level-4'' [''perm-4''] (Some ''level-3''),
      roleDoc ''level-3'' [''perm-3''] (Some ''level-2''),
      roleDoc ''level-2'' [''perm-2''] (Some ''level-1''),
      roleDoc ''level-1'' [''perm-1''] (Some ''level-0''),
      roleDoc ''level-0'' [''perm-0''] None] @ baseRoles"

text \<open>The names of those fifteen roles, deepest first.\<close>

definition levelNames :: "string list" where
  "levelNames =
     [''level-14'', ''level-13'', ''level-12'', ''level-11'', ''level-10'', ''level-9'',
      ''level-8'', ''level-7'', ''level-6'', ''level-5'', ''level-4'', ''level-3'', ''level-2'',
      ''level-1'', ''level-0'']"

text \<open>A role whose parent has no document in the store.\<close>

definition danglingRoles :: "(string \<times> RoleDocument) list" where
  "danglingRoles = [roleDoc ''editor'' [''content.edit''] (Some ''ghost'')]"

section \<open>Vocabulary of the properties\<close>

text \<open>
  The parent a walk moves on to from \<open>r\<close>: the \<^verbatim>\<open>inherits\<close> field of the stored
  document when that is a non-empty string, nothing otherwise.
\<close>

definition parentOf :: "RBACAdapter \<Rightarrow> Role \<Rightarrow> Role option" where
  "parentOf adapter r =
     (case findRole adapter r of
        None \<Rightarrow> None
      | Some role \<Rightarrow> if truthy (inherits role) then inherits role else None)"

text \<open>The \<^verbatim>\<open>inherits\<close> field as stored, whatever string it holds.\<close>

definition declaredParent :: "RBACAdapter \<Rightarrow> Role \<Rightarrow> Role option" where
  "declaredParent adapter r =
     (case findRole adapter r of None \<Rightarrow> None | Some role \<Rightarrow> inherits role)"

text \<open>
  The ancestor chain of \<open>r\<close> followed for at most \<open>n\<close> edges: the role names at depth
  \<open>0, \<dots>, n\<close>, shorter when a role without parent is reached earlier.
\<close>

fun ancestorChain :: "RBACAdapter \<Rightarrow> nat \<Rightarrow> Role \<Rightarrow> Role list" where
  "ancestorChain adapter 0 r = [r]"
| "ancestorChain adapter (Suc n) r =
     (case parentOf adapter r of
        None \<Rightarrow> [r]
      | Some p \<Rightarrow> r # ancestorChain adapter n p)"

text \<open>A role's direct permissions: those of its document, none when it has no document.\<close>

definition directPermissions :: "RBACAdapter \<Rightarrow> Role \<Rightarrow> Permission set" where
  "directPermissions adapter r =
     (case findRole adapter r of None \<Rightarrow> {} | Some role \<Rightarrow> set (permissions role))"

text \<open>
  What one visit of \<^verbatim>\<open>traverse\<close> adds to \<^verbatim>\<open>allPermissions\<close>, and what a walk along a
  list of role names adds in turn.
\<close>

definition addPermissions :: "RBACAdapter \<Rightarrow> Role \<Rightarrow> Permission list \<Rightarrow> Permission list" where
  "addPermissions adapter r ps =
     (case findRole adapter r of
        None \<Rightarrow> ps
      | Some role \<Rightarrow> foldl setAdd ps (permissions role))"

fun chainPermissions :: "RBACAdapter \<Rightarrow> Role list \<Rightarrow> Permission list \<Rightarrow> Permission list" where
  "chainPermissions adapter [] ps = ps"
| "chainPermissions adapter (r # rs) ps = chainPermissions adapter rs (addPermissions adapter r ps)"

section \<open>The cache of the base adapter\<close>

text \<open>
  \<^verbatim>\<open>BaseAdapter\<close> (\<^verbatim>\<open>adapters/base.ts\<close>): an optional map from keys to entries
  \<^verbatim>\<open>{ data, expires }\<close>, present only when the configuration enables caching, and the
  configuration itself. Times are the millisecond readings of \<^verbatim>\<open>Date.now()\<close>.
\<close>

record 'a CacheEntry =
  data :: 'a
  expires :: int

record CacheConfig =
  enabled :: "bool option"
  ttl :: "int option"

record 'a BaseAdapter =
  cache :: "(string \<Rightarrow> 'a CacheEntry option) option"
  cacheConfig :: CacheConfig

text \<open>The constructor: \<^verbatim>\<open>if (cacheConfig.enabled) this.cache = new Map()\<close>.\<close>

definition newBaseAdapter :: "CacheConfig \<Rightarrow> 'a BaseAdapter" where
  "newBaseAdapter config =
     \<lparr>cache = (if enabled config = Some True then Some Map.empty else None),
      cacheConfig = config\<rparr>"

text \<open>\<^verbatim>\<open>this.cacheConfig.ttl || 300\<close>: a missing or zero ttl falls back to 300 seconds.\<close>

definition ttlOf :: "CacheConfig \<Rightarrow> int" where
  "ttlOf config = (case ttl config of None \<Rightarrow> 300 | Some t \<Rightarrow> if t = 0 then 300 else t)"

text \<open>
  One run of \<^verbatim>\<open>withCache\<close>: what the returned promise settles to (\<open>Inl\<close> when the
  fetcher rejected), the adapter afterwards, and how many times the fetcher was invoked.
\<close>

record ('e, 'a) CacheRun =
  returned :: "'e + 'a"
  adapterAfter :: "'a BaseAdapter"
  fetcherCalls :: nat

text \<open>
  \<^verbatim>\<open>withCache(key, fetcher)\<close>. The fetcher is given by the outcome of invoking it. The
  clock is read twice, once for the expiry test (\<open>now\<close>) and once, after the fetch has
  been awaited, for the new entry (\<open>nowStored\<close>). A rejected fetch leaves the map as
  it was.
\<close>

definition withCache ::
  "'a BaseAdapter \<Rightarrow> string \<Rightarrow> 'e + 'a \<Rightarrow> int \<Rightarrow> int \<Rightarrow> ('e, 'a) CacheRun" where
  "withCache this key fetcher now nowStored =
     (case cache this of
        None \<Rightarrow> \<lparr>returned = fetcher, adapterAfter = this, fetcherCalls = 1\<rparr>
      | Some c \<Rightarrow>
          (let miss =
             (case fetcher of
                Inl e \<Rightarrow> \<lparr>returned = Inl e, adapterAfter = this, fetcherCalls = 1\<rparr>
              | Inr d \<Rightarrow>
                  \<lparr>returned = Inr d,
                   adapterAfter = this\<lparr>cache := Some (c(key \<mapsto>
                     \<lparr>data = d, expires = nowStored + ttlOf (cacheConfig this) * 1000\<rparr>))\<rparr>,
                   fetcherCalls = 1\<rparr>)
           in
             (case c key of
                None \<Rightarrow> miss
              | Some cached \<Rightarrow>
                  if expires cached > now then
                    \<lparr>returned = Inr (data cached), adapterAfter = this, fetcherCalls = 0\<rparr>
                  else miss)))"

text \<open>
  \<^verbatim>\<open>clearCache(key?)\<close>: \<^verbatim>\<open>if (key)\<close> deletes one entry; a missing or empty key
  clears the whole map.
\<close>

definition clearCache :: "'a BaseAdapter \<Rightarrow> string option \<Rightarrow> 'a BaseAdapter" where
  "clearCache this key =
     (case cache this of
        None \<Rightarrow> this
      | Some c \<Rightarrow>
          (case key of
             None \<Rightarrow> this\<lparr>cache := Some Map.empty\<rparr>
           | Some k \<Rightarrow>
               if k \<noteq> [] then this\<lparr>cache := Some (c(k := None))\<rparr>
               else this\<lparr>cache := Some Map.empty\<rparr>))"

section \<open>The permission checks\<close>

text \<open>
  \<^verbatim>\<open>server/permissions.ts\<close>. The free function \<^verbatim>\<open>getRolePermissions(role, adapter)\<close>
  only delegates to the adapter member of the same name.
\<close>

definition getRolePermissionsFor :: "Role \<Rightarrow> RBACAdapter \<Rightarrow> Permission list" where
  "getRolePermissionsFor role adapter = getRolePermissions adapter role"

definition hasPermission :: "string \<Rightarrow> Permission \<Rightarrow> RBACAdapter \<Rightarrow> bool" where
  "hasPermission userId permission adapter =
     (case getUserRole adapter userId of
        None \<Rightarrow> False
      | Some role \<Rightarrow>
          if role = [] then False
          else permission \<in> set (getRolePermissionsFor role adapter))"

definition hasAnyPermission :: "string \<Rightarrow> Permission list \<Rightarrow> RBACAdapter \<Rightarrow> bool" where
  "hasAnyPermission userId perms adapter =
     (case getUserRole adapter userId of
        None \<Rightarrow> False
      | Some role \<Rightarrow>
          if role = [] then False
          else (let userPermissions = getRolePermissionsFor role adapter
                in list_ex (\<lambda>p. p \<in> set userPermissions) perms))"

definition hasAllPermissions :: "string \<Rightarrow> Permission list \<Rightarrow> RBACAdapter \<Rightarrow> bool" where
  "hasAllPermissions userId perms adapter =
     (case getUserRole adapter userId of
        None \<Rightarrow> False
      | Some role \<Rightarrow>
          if role = [] then False
          else (let userPermissions = getRolePermissionsFor role adapter
                in list_all (\<lambda>p. p \<in> set userPermissions) perms))"

text \<open>
  The adapter of \<^verbatim>\<open>permissions.test.ts\<close> in the tests "should return false if user has
  no role": \<^verbatim>\<open>getUserRole\<close> resolves to \<^verbatim>\<open>null\<close>.
\<close>

definition noRoleAdapter :: RBACAdapter where
  "noRoleAdapter =
     \<lparr>findRole = (\<lambda>r. None), getUserRole = (\<lambda>userId. None), getRolePermissions = (\<lambda>r. [])\<rparr>"

section \<open>Properties of the walks\<close>

text \<open>
  The recursive equations are applied one step at a time, so they are taken out of the
  simplifier's default set.
\<close>

declare resolveTraverse.simps [simp del]
declare inheritsTraverse.simps [simp del]
declare hierarchyTraverse.simps [simp del]

lemma set_foldl_setAdd: "set (foldl setAdd ps xs) = set ps \<union> set xs"
  by (induction xs arbitrary: ps) (auto simp: setAdd_def)

lemma distinct_foldl_setAdd: "distinct ps \<Longrightarrow> distinct (foldl setAdd ps xs)"
  by (induction xs arbitrary: ps) (auto simp: setAdd_def)

lemma set_addPermissions: "set (addPermissions a r ps) = set ps \<union> directPermissions a r"
  by (simp add: addPermissions_def directPermissions_def set_foldl_setAdd split: option.splits)

lemma hierarchy_step:
  "hierarchyTraverse a md r d (h, V) =
     (if d > md then Inl (DepthExceeded md r)
      else if r \<in> V then Inl (CircularInheritance r)
      else (case parentOf a r of
              None \<Rightarrow> Inr (h @ [r], insert r V)
            | Some p \<Rightarrow> hierarchyTraverse a md p (d + 1) (h @ [r], insert r V)))"
  by (subst hierarchyTraverse.simps) (simp add: parentOf_def truthy_def split: option.splits)

lemma resolve_step:
  "resolveTraverse a md r d (V, ps) =
     (if d > md then Inl (DepthExceeded md r)
      else if r \<in> V then Inl (CircularInheritance r)
      else (case parentOf a r of
              None \<Rightarrow> Inr (insert r V, addPermissions a r ps)
            | Some p \<Rightarrow> resolveTraverse a md p (d + 1) (insert r V, addPermissions a r ps)))"
  by (subst resolveTraverse.simps)
     (simp add: parentOf_def truthy_def addPermissions_def split: option.splits)

lemma inherits_step:
  "inheritsTraverse a md p r d V =
     (if d > md then False
      else if r \<in> V then False
      else if declaredParent a r = Some p then True
      else (case parentOf a r of
              None \<Rightarrow> False
            | Some q \<Rightarrow> inheritsTraverse a md p q (d + 1) (insert r V)))"
  by (subst inheritsTraverse.simps)
     (auto simp add: parentOf_def declaredParent_def truthy_def split: option.splits)

lemma chain_hd: "ancestorChain a n r = r # tl (ancestorChain a n r)"
  by (cases n) (auto split: option.splits)

lemma chain_length: "length (ancestorChain a n r) \<le> Suc n"
  by (induction n arbitrary: r) (auto split: option.splits)


text \<open>
  A walk whose chain has no repeated name and ends within the remaining depth returns the
  chain.
\<close>

lemma hierarchy_ok:
  "md = d + int n \<Longrightarrow>
   distinct (ancestorChain a n r) \<Longrightarrow> set (ancestorChain a n r) \<inter> V = {} \<Longrightarrow>
   length (ancestorChain a (Suc n) r) \<le> Suc n \<Longrightarrow>
   hierarchyTraverse a md r d (h, V)
     = Inr (h @ ancestorChain a n r, V \<union> set (ancestorChain a n r))"
proof (induction n arbitrary: r d h V)
  case 0
  then show ?case by (subst hierarchy_step) (auto split: option.splits)
next
  case (Suc n)
  show ?case
  proof (cases "parentOf a r")
    case None
    with Suc.prems show ?thesis by (subst hierarchy_step) auto
  next
    case (Some p)
    from Suc.prems Some have 0: "md = (d + 1) + int n"
      and 1: "distinct (ancestorChain a n p)"
      and 2: "set (ancestorChain a n p) \<inter> insert r V = {}"
      and 3: "length (ancestorChain a (Suc n) p) \<le> Suc n"
      and 4: "r \<notin> V" and 5: "\<not> d > md"
      by auto
    have "hierarchyTraverse a md p (d + 1) (h @ [r], insert r V)
      = Inr ((h @ [r]) @ ancestorChain a n p, insert r V \<union> set (ancestorChain a n p))"
      by (rule Suc.IH[OF 0 1 2 3])
    then show ?thesis using Some 4 5
      by (subst hierarchy_step) simp
  qed
qed

lemma set_chainPermissions:
  "set (chainPermissions a rs ps) = set ps \<union> (\<Union>r\<in>set rs. directPermissions a r)"
  by (induction rs arbitrary: ps) (auto simp: set_addPermissions)

lemma resolve_ok:
  "md = d + int n \<Longrightarrow>
   distinct (ancestorChain a n r) \<Longrightarrow> set (ancestorChain a n r) \<inter> V = {} \<Longrightarrow>
   length (ancestorChain a (Suc n) r) \<le> Suc n \<Longrightarrow>
   resolveTraverse a md r d (V, ps)
     = Inr (V \<union> set (ancestorChain a n r), chainPermissions a (ancestorChain a n r) ps)"
proof (induction n arbitrary: r d ps V)
  case 0
  then show ?case by (subst resolve_step) (auto split: option.splits)
next
  case (Suc n)
  show ?case
  proof (cases "parentOf a r")
    case None
    with Suc.prems show ?thesis by (subst resolve_step) auto
  next
    case (Some p)
    from Suc.prems Some have 0: "md = (d + 1) + int n"
      and 1: "distinct (ancestorChain a n p)"
      and 2: "set (ancestorChain a n p) \<inter> insert r V = {}"
      and 3: "length (ancestorChain a (Suc n) p) \<le> Suc n"
      and 4: "r \<notin> V" and 5: "\<not> d > md"
      by auto
    have "resolveTraverse a md p (d + 1) (insert r V, addPermissions a r ps)
      = Inr (insert r V \<union> set (ancestorChain a n p),
             chainPermissions a (ancestorChain a n p) (addPermissions a r ps))"
      by (rule Suc.IH[OF 0 1 2 3])
    then show ?thesis using Some 4 5
      by (subst resolve_step) simp
  qed
qed

text \<open>A repeated name within the remaining depth is reported as circular inheritance.\<close>

lemma hierarchy_circular:
  "md = d + int n \<Longrightarrow>
   \<not> (distinct (ancestorChain a n r) \<and> set (ancestorChain a n r) \<inter> V = {}) \<Longrightarrow>
   \<exists>x. hierarchyTraverse a md r d (h, V) = Inl (CircularInheritance x)"
proof (induction n arbitrary: r d h V)
  case 0
  then show ?case by (subst hierarchy_step) (auto split: option.splits)
next
  case (Suc n)
  from Suc.prems have 5: "\<not> d > md" by simp
  show ?case
  proof (cases "r \<in> V")
    case True
    then show ?thesis using 5 by (subst hierarchy_step) auto
  next
    case False
    show ?thesis
    proof (cases "parentOf a r")
      case None
      with Suc.prems False show ?thesis by auto
    next
      case (Some p)
      with Suc.prems False
      have 0: "md = (d + 1) + int n" and
        1: "\<not> (distinct (ancestorChain a n p) \<and> set (ancestorChain a n p) \<inter> insert r V = {})"
        by auto
      from Suc.IH[OF 0 1, of "h @ [r]"]
      obtain x where "hierarchyTraverse a md p (d + 1) (h @ [r], insert r V)
          = Inl (CircularInheritance x)" by blast
      then show ?thesis using Some False 5
        by (subst hierarchy_step) simp
    qed
  qed
qed

text \<open>The permission walk and the hierarchy walk fail at the same place with the same error.\<close>

lemma resolve_fails_like_hierarchy:
  "md = d + int n \<Longrightarrow>
   hierarchyTraverse a md r d (h, V) = Inl e \<longleftrightarrow>
   resolveTraverse a md r d (V, ps) = Inl e"
proof (induction n arbitrary: r d h V ps)
  case 0
  then show ?case
    by (subst hierarchy_step, subst resolve_step, subst hierarchy_step, subst resolve_step)
       (auto split: option.splits)
next
  case (Suc n)
  then have 0: "md = (d + 1) + int n" by simp
  show ?case
    by (subst hierarchy_step, subst resolve_step)
       (simp add: Suc.IH[OF 0] split: option.splits)
qed

lemma hierarchy_depth:
  "md = d + int n \<Longrightarrow>
   distinct (ancestorChain a n r) \<Longrightarrow> set (ancestorChain a n r) \<inter> V = {} \<Longrightarrow>
   length (ancestorChain a (Suc n) r) = Suc (Suc n) \<Longrightarrow>
   hierarchyTraverse a md r d (h, V)
     = Inl (DepthExceeded md (last (ancestorChain a (Suc n) r)))"
proof (induction n arbitrary: r d h V)
  case 0
  then show ?case
    by (subst hierarchy_step, subst hierarchy_step) (auto split: option.splits)
next
  case (Suc n)
  show ?case
  proof (cases "parentOf a r")
    case None
    with Suc.prems show ?thesis by auto
  next
    case (Some p)
    from Suc.prems Some have 0: "md = (d + 1) + int n"
      and 1: "distinct (ancestorChain a n p)"
      and 2: "set (ancestorChain a n p) \<inter> insert r V = {}"
      and 3: "length (ancestorChain a (Suc n) p) = Suc (Suc n)"
      and 4: "r \<notin> V" and 5: "\<not> d > md"
      by auto
    have "hierarchyTraverse a md p (d + 1) (h @ [r], insert r V)
      = Inl (DepthExceeded md (last (ancestorChain a (Suc n) p)))"
      by (rule Suc.IH[OF 0 1 2 3])
    moreover have "ancestorChain a (Suc n) p \<noteq> []" using 3 by auto
    moreover have "ancestorChain a (Suc (Suc n)) r = r # ancestorChain a (Suc n) p"
      using Some by simp
    ultimately show ?thesis using Some 4 5
      by (subst hierarchy_step) (simp del: ancestorChain.simps)
  qed
qed

lemma resolve_depth:
  "md = d + int n \<Longrightarrow>
   distinct (ancestorChain a n r) \<Longrightarrow> set (ancestorChain a n r) \<inter> V = {} \<Longrightarrow>
   length (ancestorChain a (Suc n) r) = Suc (Suc n) \<Longrightarrow>
   resolveTraverse a md r d (V, ps)
     = Inl (DepthExceeded md (last (ancestorChain a (Suc n) r)))"
  using hierarchy_depth[of md d n a r V "[]"] resolve_fails_like_hierarchy[of md d n a r "[]" V]
  by simp

lemma resolve_circular:
  "md = d + int n \<Longrightarrow>
   \<not> (distinct (ancestorChain a n r) \<and> set (ancestorChain a n r) \<inter> V = {}) \<Longrightarrow>
   \<exists>x. hierarchyTraverse a md r d (h, V) = Inl (CircularInheritance x)
     \<and> resolveTraverse a md r d (V, ps) = Inl (CircularInheritance x)"
  using hierarchy_circular[of md d n a r V h] resolve_fails_like_hierarchy[of md d n a r h V]
  by auto

lemma walks_negative:
  "md < 0 \<Longrightarrow> hierarchyTraverse a md r 0 (h, V) = Inl (DepthExceeded md r)
     \<and> resolveTraverse a md r 0 (V, ps) = Inl (DepthExceeded md r)"
  by (subst hierarchy_step, subst resolve_step) simp

text \<open>The three outcomes of the exported functions, read off the ancestor chain.\<close>

lemma top_ok:
  assumes "0 \<le> maxDepthOf options"
    and "distinct (ancestorChain a (nat (maxDepthOf options)) r)"
    and "length (ancestorChain a (Suc (nat (maxDepthOf options))) r) \<le> Suc (nat (maxDepthOf options))"
  shows "getRoleHierarchy a r options = Inr (ancestorChain a (nat (maxDepthOf options)) r)"
    and "resolveRolePermissions a r options
           = Inr (chainPermissions a (ancestorChain a (nat (maxDepthOf options)) r) [])"
proof -
  have m: "maxDepthOf options = 0 + int (nat (maxDepthOf options))" using assms(1) by simp
  show "getRoleHierarchy a r options = Inr (ancestorChain a (nat (maxDepthOf options)) r)"
    using hierarchy_ok[OF m assms(2) _ assms(3), of "{}" "[]"]
    by (simp add: getRoleHierarchy_def)
  show "resolveRolePermissions a r options
           = Inr (chainPermissions a (ancestorChain a (nat (maxDepthOf options)) r) [])"
    using resolve_ok[OF m assms(2) _ assms(3), of "{}" "[]"]
    by (simp add: resolveRolePermissions_def)
qed

lemma top_circular:
  assumes "0 \<le> maxDepthOf options"
    and "\<not> distinct (ancestorChain a (nat (maxDepthOf options)) r)"
  shows "\<exists>x. getRoleHierarchy a r options = Inl (CircularInheritance x)
           \<and> resolveRolePermissions a r options = Inl (CircularInheritance x)"
proof -
  have m: "maxDepthOf options = 0 + int (nat (maxDepthOf options))" using assms(1) by simp
  from resolve_circular[OF m, of a r "{}" "[]" "[]"] assms(2)
  show ?thesis by (auto simp: getRoleHierarchy_def resolveRolePermissions_def)
qed

lemma top_depth:
  assumes "0 \<le> maxDepthOf options"
    and "distinct (ancestorChain a (nat (maxDepthOf options)) r)"
    and "length (ancestorChain a (Suc (nat (maxDepthOf options))) r) = Suc (Suc (nat (maxDepthOf options)))"
  shows "getRoleHierarchy a r options
           = Inl (DepthExceeded (maxDepthOf options)
                   (last (ancestorChain a (Suc (nat (maxDepthOf options))) r)))"
    and "resolveRolePermissions a r options
           = Inl (DepthExceeded (maxDepthOf options)
                   (last (ancestorChain a (Suc (nat (maxDepthOf options))) r)))"
proof -
  have m: "maxDepthOf options = 0 + int (nat (maxDepthOf options))" using assms(1) by simp
  show "getRoleHierarchy a r options
           = Inl (DepthExceeded (maxDepthOf options)
                   (last (ancestorChain a (Suc (nat (maxDepthOf options))) r)))"
    using hierarchy_depth[OF m assms(2) _ assms(3), of "{}" "[]"]
    by (simp add: getRoleHierarchy_def)
  show "resolveRolePermissions a r options
           = Inl (DepthExceeded (maxDepthOf options)
                   (last (ancestorChain a (Suc (nat (maxDepthOf options))) r)))"
    using resolve_depth[OF m assms(2) _ assms(3), of "{}" "[]"]
    by (simp add: resolveRolePermissions_def)
qed

lemma top_negative:
  assumes "maxDepthOf options < 0"
  shows "getRoleHierarchy a r options = Inl (DepthExceeded (maxDepthOf options) r)"
    and "resolveRolePermissions a r options = Inl (DepthExceeded (maxDepthOf options) r)"
  using walks_negative[OF assms, of a r "[]" "{}" "[]"]
  by (simp_all add: getRoleHierarchy_def resolveRolePermissions_def)

lemma chain_length_cases:
  "length (ancestorChain a (Suc n) r) \<le> Suc n \<or> length (ancestorChain a (Suc n) r) = Suc (Suc n)"
  using chain_length[of a "Suc n" r] by linarith

text \<open>Evaluation of the walks on the stores of the tests.\<close>

lemmas store_defs =
  mockAdapter_def baseRoles_def circularRoles_def levelRoles_def roleDoc_def

lemma level14_md20:
  "resolveRolePermissions (mockAdapter levelRoles) ''level-14'' \<lparr>maxDepth = Some 20\<rparr>
     = Inr [''perm-14'', ''perm-13'', ''perm-12'', ''perm-11'', ''perm-10'', ''perm-9'',
            ''perm-8'', ''perm-7'', ''perm-6'', ''perm-5'', ''perm-4'', ''perm-3'', ''perm-2'',
            ''perm-1'', ''perm-0'']"
  by (simp add: resolveRolePermissions_def maxDepthOf_def resolveTraverse.simps store_defs
        setAdd_def)

lemma level14_md5:
  "resolveRolePermissions (mockAdapter levelRoles) ''level-14'' \<lparr>maxDepth = Some 5\<rparr>
     = Inl (DepthExceeded 5 ''level-8'')"
  by (simp add: resolveRolePermissions_def maxDepthOf_def resolveTraverse.simps store_defs
        setAdd_def)

lemma level10_md10:
  "resolveRolePermissions (mockAdapter levelRoles) ''level-10'' \<lparr>maxDepth = Some 10\<rparr>
     = Inr [''perm-10'', ''perm-9'', ''perm-8'', ''perm-7'', ''perm-6'', ''perm-5'', ''perm-4'',
            ''perm-3'', ''perm-2'', ''perm-1'', ''perm-0'']"
  by (simp add: resolveRolePermissions_def maxDepthOf_def resolveTraverse.simps store_defs
        setAdd_def)

lemma level11_md10:
  "resolveRolePermissions (mockAdapter levelRoles) ''level-11'' \<lparr>maxDepth = Some 10\<rparr>
     = Inl (DepthExceeded 10 ''level-0'')"
  by (simp add: resolveRolePermissions_def maxDepthOf_def resolveTraverse.simps store_defs
        setAdd_def)

lemma level_permissions_union:
  "(\<Union>r\<in>set levelNames. directPermissions (mockAdapter levelRoles) r)
     = set [''perm-14'', ''perm-13'', ''perm-12'', ''perm-11'', ''perm-10'', ''perm-9'',
            ''perm-8'', ''perm-7'', ''perm-6'', ''perm-5'', ''perm-4'', ''perm-3'', ''perm-2'',
            ''perm-1'', ''perm-0'']"
  by (auto simp add: levelNames_def directPermissions_def store_defs)

text \<open>
  The depth error is raised exactly when the walk, having met no repeated name, still has
  a parent to move to after \<open>maxDepth\<close> edges.
\<close>

lemma depth_exceeded_iff:
  "(\<exists>x. resolveRolePermissions adapter roleName options
            = Inl (DepthExceeded (maxDepthOf options) x))
   \<longleftrightarrow> (maxDepthOf options < 0
        \<or> (distinct (ancestorChain adapter (nat (maxDepthOf options)) roleName)
           \<and> length (ancestorChain adapter (Suc (nat (maxDepthOf options))) roleName)
               = Suc (Suc (nat (maxDepthOf options)))))"
  (is "?L \<longleftrightarrow> ?R")
proof
  assume L: ?L
  show ?R
  proof (cases "maxDepthOf options < 0")
    case True
    then show ?thesis by simp
  next
    case False
    then have nn: "0 \<le> maxDepthOf options" by simp
    have d: "distinct (ancestorChain adapter (nat (maxDepthOf options)) roleName)"
    proof (rule ccontr)
      assume "\<not> ?thesis"
      from top_circular[OF nn this] L show False by auto
    qed
    have "\<not> length (ancestorChain adapter (Suc (nat (maxDepthOf options))) roleName)
            \<le> Suc (nat (maxDepthOf options))"
    proof
      assume "length (ancestorChain adapter (Suc (nat (maxDepthOf options))) roleName)
            \<le> Suc (nat (maxDepthOf options))"
      from top_ok(2)[OF nn d this] L show False by auto
    qed
    with chain_length_cases[of adapter "nat (maxDepthOf options)" roleName] d
    show ?thesis by blast
  qed
next
  assume R: ?R
  show ?L
  proof (cases "maxDepthOf options < 0")
    case True
    from top_negative(2)[OF True] show ?thesis by blast
  next
    case False
    then have nn: "0 \<le> maxDepthOf options" by simp
    from R False have d: "distinct (ancestorChain adapter (nat (maxDepthOf options)) roleName)"
      and l: "length (ancestorChain adapter (Suc (nat (maxDepthOf options))) roleName)
               = Suc (Suc (nat (maxDepthOf options)))" by auto
    from top_depth(2)[OF nn d l] show ?thesis by blast
  qed
qed

text \<open>A hierarchy that is returned is the ancestor chain, and repeats no name.\<close>

lemma hierarchy_returns_chain:
  assumes "getRoleHierarchy adapter roleName options = Inr h"
  shows "0 \<le> maxDepthOf options \<and> h = ancestorChain adapter (nat (maxDepthOf options)) roleName
     \<and> distinct h"
proof -
  have nn: "0 \<le> maxDepthOf options"
  proof (rule ccontr)
    assume "\<not> ?thesis"
    then have "maxDepthOf options < 0" by simp
    from top_negative(1)[OF this] assms show False by simp
  qed
  have d: "distinct (ancestorChain adapter (nat (maxDepthOf options)) roleName)"
  proof (rule ccontr)
    assume "\<not> ?thesis"
    from top_circular[OF nn this] assms show False by auto
  qed
  have "length (ancestorChain adapter (Suc (nat (maxDepthOf options))) roleName)
            \<le> Suc (nat (maxDepthOf options))"
  proof (rule ccontr)
    assume "\<not> ?thesis"
    with chain_length_cases[of adapter "nat (maxDepthOf options)" roleName]
    have "length (ancestorChain adapter (Suc (nat (maxDepthOf options))) roleName)
            = Suc (Suc (nat (maxDepthOf options)))" by blast
    from top_depth(1)[OF nn d this] assms show False by simp
  qed
  from top_ok(1)[OF nn d this] assms d nn show ?thesis by simp
qed

text \<open>
  \<^verbatim>\<open>inheritsFrom\<close> answers true exactly when some role on the ancestor chain, within
  \<open>maxDepth\<close> edges, stores \<open>parentRole\<close> in its \<^verbatim>\<open>inherits\<close> field. The visited set
  of the walk is closed under the parent step except for the step into the current role,
  so stopping at a visited role skips nothing new.
\<close>

lemma chain_stays_in_closed_set:
  "\<forall>x\<in>V. \<forall>y. parentOf a x = Some y \<longrightarrow> y \<in> V \<Longrightarrow> r \<in> V \<Longrightarrow>
   set (ancestorChain a n r) \<subseteq> V"
  by (induction n arbitrary: r) (auto split: option.splits)

lemma inherits_traverse_iff:
  "md = d + int n \<Longrightarrow>
   \<forall>x\<in>V. declaredParent a x \<noteq> Some p \<Longrightarrow>
   \<forall>x\<in>V. \<forall>y. parentOf a x = Some y \<longrightarrow> y \<in> insert r V \<Longrightarrow>
   inheritsTraverse a md p r d V
     \<longleftrightarrow> (\<exists>x\<in>set (ancestorChain a n r). declaredParent a x = Some p)"
proof (induction n arbitrary: r d V)
  case 0
  show ?case
  proof (cases "r \<in> V")
    case True
    with 0 show ?thesis by (subst inherits_step) auto
  next
    case False
    with 0 show ?thesis
      by (subst inherits_step, subst inherits_step) (auto split: option.splits)
  qed
next
  case (Suc n)
  from Suc.prems have 5: "\<not> d > md" by simp
  show ?case
  proof (cases "r \<in> V")
    case True
    with Suc.prems(3) have "\<forall>x\<in>V. \<forall>y. parentOf a x = Some y \<longrightarrow> y \<in> V" by auto
    from chain_stays_in_closed_set[OF this True, of "Suc n"] Suc.prems(2)
    have "\<not> (\<exists>x\<in>set (ancestorChain a (Suc n) r). declaredParent a x = Some p)" by blast
    with True show ?thesis by (subst inherits_step) simp
  next
    case False
    show ?thesis
    proof (cases "declaredParent a r = Some p")
      case True
      have "r \<in> set (ancestorChain a (Suc n) r)" by (simp split: option.splits)
      with True False 5 show ?thesis by (subst inherits_step) auto
    next
      case np: False
      show ?thesis
      proof (cases "parentOf a r")
        case None
        with np False 5 show ?thesis by (subst inherits_step) simp
      next
        case (Some q)
        have 0: "md = (d + 1) + int n" using Suc.prems(1) by simp
        have 1: "\<forall>x\<in>insert r V. declaredParent a x \<noteq> Some p"
          using Suc.prems(2) np by simp
        have 2: "\<forall>x\<in>insert r V. \<forall>y. parentOf a x = Some y \<longrightarrow> y \<in> insert q (insert r V)"
          using Suc.prems(3) Some by auto
        from Suc.IH[OF 0 1 2] Some np False 5 show ?thesis
          by (subst inherits_step) simp
      qed
    qed
  qed
qed

lemma inheritsFrom_iff:
  "inheritsFrom a r p options
     \<longleftrightarrow> 0 \<le> maxDepthOf options
        \<and> (\<exists>x\<in>set (ancestorChain a (nat (maxDepthOf options)) r). declaredParent a x = Some p)"
proof (cases "0 \<le> maxDepthOf options")
  case True
  then have m: "maxDepthOf options = 0 + int (nat (maxDepthOf options))" by simp
  from inherits_traverse_iff[OF m, of "{}" a p r] True show ?thesis
    by (simp add: inheritsFrom_def)
next
  case False
  then show ?thesis by (subst inheritsFrom_def, subst inherits_step) simp
qed

lemma tl_chain_iff:
  "y \<in> set (tl (ancestorChain a (Suc n) r))
     \<longleftrightarrow> (\<exists>x\<in>set (ancestorChain a n r). parentOf a x = Some y)"
proof (induction n arbitrary: r)
  case 0
  show ?case by (auto split: option.splits)
next
  case (Suc n)
  show ?case
  proof (cases "parentOf a r")
    case None
    then show ?thesis by simp
  next
    case (Some q)
    have "y \<in> set (tl (ancestorChain a (Suc (Suc n)) r)) \<longleftrightarrow> y \<in> set (ancestorChain a (Suc n) q)"
      using Some by simp
    also have "\<dots> \<longleftrightarrow> y = q \<or> y \<in> set (tl (ancestorChain a (Suc n) q))"
      by (subst chain_hd) auto
    also have "\<dots> \<longleftrightarrow> y = q \<or> (\<exists>x\<in>set (ancestorChain a n q). parentOf a x = Some y)"
      by (simp only: Suc.IH)
    also have "\<dots> \<longleftrightarrow> (\<exists>x\<in>set (ancestorChain a (Suc n) r). parentOf a x = Some y)"
      using Some by auto
    finally show ?thesis .
  qed
qed

lemma declared_nonempty_parent:
  "y \<noteq> [] \<Longrightarrow> declaredParent a x = Some y \<longleftrightarrow> parentOf a x = Some y"
  by (auto simp: declaredParent_def parentOf_def truthy_def split: option.splits)

section \<open>Properties of the cache\<close>

text \<open>
  An adapter constructed with caching enabled has a cache map, and \<^verbatim>\<open>withCache\<close> and
  \<^verbatim>\<open>clearCache\<close> keep it. The other lemmas are the three branches of \<^verbatim>\<open>withCache\<close>:
  a live entry, an expired entry, no entry.
\<close>

lemma newBaseAdapter_enabled:
  "enabled config = Some True \<Longrightarrow> cache (newBaseAdapter config) = Some Map.empty"
  by (simp add: newBaseAdapter_def)

lemma withCache_keeps_cache:
  "cache this \<noteq> None \<Longrightarrow> cache (adapterAfter (withCache this key fetcher now nowStored)) \<noteq> None"
  by (auto simp: withCache_def Let_def split: option.splits sum.splits)

lemma clearCache_keeps_cache:
  "cache this \<noteq> None \<Longrightarrow> cache (clearCache this key) \<noteq> None"
  by (auto simp: clearCache_def split: option.splits)

lemma withCache_miss_stores:
  assumes "cache this = Some c"
    and "fetcherCalls (withCache this key (Inr v) now nowStored) = 1"
  shows "adapterAfter (withCache this key (Inr v) now nowStored)
           = this\<lparr>cache := Some (c(key \<mapsto>
               \<lparr>data = v, expires = nowStored + ttlOf (cacheConfig this) * 1000\<rparr>))\<rparr>"
  using assms by (auto simp: withCache_def Let_def split: option.splits if_splits)

lemma withCache_hit:
  assumes "cache this = Some c" and "c key = Some entry" and "now < expires entry"
  shows "withCache this key fetcher now nowStored
           = \<lparr>returned = Inr (data entry), adapterAfter = this, fetcherCalls = 0\<rparr>"
  using assms by (simp add: withCache_def Let_def)

lemma withCache_expired:
  assumes "cache this = Some c" and "c key = Some entry" and "expires entry \<le> now"
  shows "fetcherCalls (withCache this key fetcher now nowStored) = 1
       \<and> returned (withCache this key fetcher now nowStored) = fetcher"
  using assms by (auto simp: withCache_def Let_def split: sum.splits)

lemma withCache_absent:
  assumes "cache this = Some c" and "c key = None"
  shows "fetcherCalls (withCache this key fetcher now nowStored) = 1
       \<and> returned (withCache this key fetcher now nowStored) = fetcher"
  using assms by (auto simp: withCache_def Let_def split: sum.splits)

lemma clearCache_removes:
  assumes "cache this = Some c"
  shows "\<exists>c'. cache (clearCache this (Some key)) = Some c' \<and> c' key = None"
  using assms by (auto simp: clearCache_def)

section \<open>Claims\<close>

text \<open>
  C1. When the ancestor chain of \<open>roleName\<close> repeats no role name (the graph is acyclic
  along it) and ends after at most \<open>maxDepth\<close> edges, both \<^verbatim>\<open>resolveRolePermissions\<close>
  and \<^verbatim>\<open>getRoleHierarchy\<close> return, and the set of the permissions returned is the union
  of the direct permissions of every role name in the returned hierarchy, where a name
  without a stored document contributes nothing.
\<close>

theorem resolve_equals_union_over_hierarchy:
  assumes "0 \<le> maxDepthOf options"
    and "distinct (ancestorChain adapter (nat (maxDepthOf options)) roleName)"
    and "length (ancestorChain adapter (Suc (nat (maxDepthOf options))) roleName)
           \<le> Suc (nat (maxDepthOf options))"
  shows "\<exists>ps h. resolveRolePermissions adapter roleName options = Inr ps
           \<and> getRoleHierarchy adapter roleName options = Inr h
           \<and> set ps = (\<Union>r\<in>set h. directPermissions adapter r)"
  using top_ok[OF assms] by (simp add: set_chainPermissions)

theorem resolve_equals_union_over_hierarchy_witness:
  "0 \<le> maxDepthOf \<lparr>maxDepth = None\<rparr>
   \<and> distinct (ancestorChain (mockAdapter baseRoles) (nat (maxDepthOf \<lparr>maxDepth = None\<rparr>)) ''super-admin'')
   \<and> length (ancestorChain (mockAdapter baseRoles) (Suc (nat (maxDepthOf \<lparr>maxDepth = None\<rparr>))) ''super-admin'')
           \<le> Suc (nat (maxDepthOf \<lparr>maxDepth = None\<rparr>))
   \<and> (\<exists>ps h. resolveRolePermissions (mockAdapter baseRoles) ''super-admin'' \<lparr>maxDepth = None\<rparr> = Inr ps
           \<and> getRoleHierarchy (mockAdapter baseRoles) ''super-admin'' \<lparr>maxDepth = None\<rparr> = Inr h
           \<and> set ps = (\<Union>r\<in>set h. directPermissions (mockAdapter baseRoles) r))"
proof -
  have c: "ancestorChain (mockAdapter baseRoles) (Suc (nat (maxDepthOf \<lparr>maxDepth = None\<rparr>))) ''super-admin''
             = [''super-admin'', ''admin'', ''manager'', ''user'']"
    "ancestorChain (mockAdapter baseRoles) (nat (maxDepthOf \<lparr>maxDepth = None\<rparr>)) ''super-admin''
             = [''super-admin'', ''admin'', ''manager'', ''user'']"
    by (simp_all add: maxDepthOf_def eval_nat_numeral parentOf_def truthy_def mockAdapter_def baseRoles_def roleDoc_def)
  have 1: "0 \<le> maxDepthOf \<lparr>maxDepth = None\<rparr>" by (simp add: maxDepthOf_def)
  have 2: "distinct (ancestorChain (mockAdapter baseRoles) (nat (maxDepthOf \<lparr>maxDepth = None\<rparr>)) ''super-admin'')"
    unfolding c by simp
  have 3: "length (ancestorChain (mockAdapter baseRoles) (Suc (nat (maxDepthOf \<lparr>maxDepth = None\<rparr>))) ''super-admin'')
           \<le> Suc (nat (maxDepthOf \<lparr>maxDepth = None\<rparr>))"
    unfolding c by (simp add: maxDepthOf_def)
  from resolve_equals_union_over_hierarchy[OF 1 2 3] 1 2 3 show ?thesis by blast
qed

text \<open>
  C2. When the parent chain of \<open>roleName\<close> comes back to a role name already on the
  path within \<open>maxDepth\<close> edges (two mutual parents, or a role naming itself as parent),
  \<^verbatim>\<open>resolveRolePermissions\<close> and \<^verbatim>\<open>getRoleHierarchy\<close> both fail with the circular
  inheritance error, for the same role name, and neither returns a result.
\<close>

theorem cycle_raises_circular_inheritance:
  assumes "0 \<le> maxDepthOf options"
    and "\<not> distinct (ancestorChain adapter (nat (maxDepthOf options)) roleName)"
  shows "\<exists>x. resolveRolePermissions adapter roleName options = Inl (CircularInheritance x)
           \<and> getRoleHierarchy adapter roleName options = Inl (CircularInheritance x)"
  using top_circular[OF assms] by blast

theorem cycle_raises_circular_inheritance_witness:
  "0 \<le> maxDepthOf \<lparr>maxDepth = None\<rparr>
   \<and> \<not> distinct (ancestorChain (mockAdapter circularRoles) (nat (maxDepthOf \<lparr>maxDepth = None\<rparr>)) ''role-a'')
   \<and> (\<exists>x. resolveRolePermissions (mockAdapter circularRoles) ''role-a'' \<lparr>maxDepth = None\<rparr>
              = Inl (CircularInheritance x)
           \<and> getRoleHierarchy (mockAdapter circularRoles) ''role-a'' \<lparr>maxDepth = None\<rparr>
              = Inl (CircularInheritance x))"
proof -
  have 1: "0 \<le> maxDepthOf \<lparr>maxDepth = None\<rparr>" by (simp add: maxDepthOf_def)
  have 2: "\<not> distinct (ancestorChain (mockAdapter circularRoles)
             (nat (maxDepthOf \<lparr>maxDepth = None\<rparr>)) ''role-a'')"
    by (simp add: maxDepthOf_def eval_nat_numeral parentOf_def truthy_def store_defs)
  from cycle_raises_circular_inheritance[OF 1 2] 1 2 show ?thesis by blast
qed

text \<open>
  C3, as the code has it. \<^verbatim>\<open>inheritsFrom\<close> has no \<^verbatim>\<open>throw\<close> and its walk
  is bounded, so it always returns a boolean, never an error: true exactly when some role
  met on the parent chain of \<open>roleName\<close> within \<open>maxDepth\<close> edges names
  \<open>parentRole\<close> as its parent. So it is false when the starting role \<open>roleName\<close>
  is missing from the store; it is false, on a cycle as anywhere else, when no role met
  on the chain names \<open>parentRole\<close>; and it is true whenever \<open>parentRole\<close> is the
  direct parent of \<open>roleName\<close>, also between two mutual parents.
\<close>

theorem inheritsFrom_boolean_outcome:
  "(inheritsFrom adapter roleName parentRole options
      \<longleftrightarrow> 0 \<le> maxDepthOf options
          \<and> (\<exists>x\<in>set (ancestorChain adapter (nat (maxDepthOf options)) roleName).
                declaredParent adapter x = Some parentRole))
   \<and> (findRole adapter roleName = None \<longrightarrow> \<not> inheritsFrom adapter roleName parentRole options)
   \<and> ((\<forall>x\<in>set (ancestorChain adapter (nat (maxDepthOf options)) roleName).
          declaredParent adapter x \<noteq> Some parentRole)
        \<longrightarrow> \<not> inheritsFrom adapter roleName parentRole options)
   \<and> (0 \<le> maxDepthOf options \<and> declaredParent adapter roleName = Some parentRole
        \<longrightarrow> inheritsFrom adapter roleName parentRole options)"
proof (intro conjI impI)
  show "inheritsFrom adapter roleName parentRole options
      \<longleftrightarrow> 0 \<le> maxDepthOf options
          \<and> (\<exists>x\<in>set (ancestorChain adapter (nat (maxDepthOf options)) roleName).
                declaredParent adapter x = Some parentRole)"
    by (rule inheritsFrom_iff)
next
  assume "findRole adapter roleName = None"
  then show "\<not> inheritsFrom adapter roleName parentRole options"
    by (subst inheritsFrom_def, subst inheritsTraverse.simps) simp
next
  assume "\<forall>x\<in>set (ancestorChain adapter (nat (maxDepthOf options)) roleName).
            declaredParent adapter x \<noteq> Some parentRole"
  then show "\<not> inheritsFrom adapter roleName parentRole options"
    by (subst inheritsFrom_iff) blast
next
  assume a: "0 \<le> maxDepthOf options \<and> declaredParent adapter roleName = Some parentRole"
  have "roleName \<in> set (ancestorChain adapter (nat (maxDepthOf options)) roleName)"
    by (subst chain_hd) simp
  with a show "inheritsFrom adapter roleName parentRole options"
    by (subst inheritsFrom_iff) blast
qed

theorem inheritsFrom_boolean_outcome_witness:
  "findRole (mockAdapter circularRoles) ''nonexistent'' = None
   \<and> \<not> inheritsFrom (mockAdapter circularRoles) ''nonexistent'' ''role-b'' \<lparr>maxDepth = None\<rparr>
   \<and> 0 \<le> maxDepthOf \<lparr>maxDepth = None\<rparr>
   \<and> declaredParent (mockAdapter circularRoles) ''role-b'' = Some ''role-a''
   \<and> inheritsFrom (mockAdapter circularRoles) ''role-b'' ''role-a'' \<lparr>maxDepth = None\<rparr>
   \<and> \<not> inheritsFrom (mockAdapter circularRoles) ''role-a'' ''user'' \<lparr>maxDepth = None\<rparr>"
proof -
  have 1: "findRole (mockAdapter circularRoles) ''nonexistent'' = None"
    by (simp add: store_defs)
  have 2: "0 \<le> maxDepthOf \<lparr>maxDepth = None\<rparr>" by (simp add: maxDepthOf_def)
  have 3: "declaredParent (mockAdapter circularRoles) ''role-b'' = Some ''role-a''"
    by (simp add: declaredParent_def store_defs)
  have 4: "\<forall>x\<in>set (ancestorChain (mockAdapter circularRoles)
              (nat (maxDepthOf \<lparr>maxDepth = None\<rparr>)) ''role-a'').
                declaredParent (mockAdapter circularRoles) x \<noteq> Some ''user''"
    by (simp add: maxDepthOf_def eval_nat_numeral parentOf_def declaredParent_def truthy_def
          store_defs)
  from inheritsFrom_boolean_outcome[of "mockAdapter circularRoles" "''nonexistent''" "''role-b''"
      "\<lparr>maxDepth = None\<rparr>"] 1
  have a: "\<not> inheritsFrom (mockAdapter circularRoles) ''nonexistent'' ''role-b'' \<lparr>maxDepth = None\<rparr>"
    by blast
  from inheritsFrom_boolean_outcome[of "mockAdapter circularRoles" "''role-b''" "''role-a''"
      "\<lparr>maxDepth = None\<rparr>"] 2 3
  have b: "inheritsFrom (mockAdapter circularRoles) ''role-b'' ''role-a'' \<lparr>maxDepth = None\<rparr>"
    by blast
  from inheritsFrom_boolean_outcome[of "mockAdapter circularRoles" "''role-a''" "''user''"
      "\<lparr>maxDepth = None\<rparr>"] 4
  have c: "\<not> inheritsFrom (mockAdapter circularRoles) ''role-a'' ''user'' \<lparr>maxDepth = None\<rparr>"
    by blast
  from 1 2 3 a b c show ?thesis by blast
qed

text \<open>
  For the two mutual parents of the tests the answer is true, not false: \<^verbatim>\<open>role-b\<close> is
  the direct parent of \<^verbatim>\<open>role-a\<close>, and the comparison comes before any revisit.
\<close>

theorem mutual_parents_counterexample:
  "inheritsFrom (mockAdapter circularRoles) ''role-a'' ''role-b'' \<lparr>maxDepth = None\<rparr>"
  by (simp add: inheritsFrom_def maxDepthOf_def inheritsTraverse.simps store_defs)

text \<open>
  C4, as the code has it. For a non-empty role name \<open>r\<close>, \<^verbatim>\<open>inheritsFrom(adapter, r, r)\<close>
  is true exactly when the parent chain of \<open>r\<close> comes back to \<open>r\<close> within
  \<open>maxDepth + 1\<close> edges: false in every store where \<open>r\<close> is not its own ancestor,
  true when \<open>r\<close> names itself as parent or lies on such a cycle of parent pointers.
\<close>

theorem self_inheritance_iff_on_cycle:
  assumes "roleName \<noteq> []"
  shows "inheritsFrom adapter roleName roleName options
     \<longleftrightarrow> 0 \<le> maxDepthOf options
        \<and> roleName \<in> set (tl (ancestorChain adapter (Suc (nat (maxDepthOf options))) roleName))"
  by (simp add: inheritsFrom_iff tl_chain_iff declared_nonempty_parent[OF assms]
        del: ancestorChain.simps)

theorem self_inheritance_iff_on_cycle_witness:
  "''admin'' \<noteq> []
   \<and> \<not> inheritsFrom (mockAdapter baseRoles) ''admin'' ''admin'' \<lparr>maxDepth = None\<rparr>
   \<and> ''role-a'' \<noteq> []
   \<and> ''role-a'' \<in> set (tl (ancestorChain (mockAdapter circularRoles)
         (Suc (nat (maxDepthOf \<lparr>maxDepth = None\<rparr>))) ''role-a''))
   \<and> inheritsFrom (mockAdapter circularRoles) ''role-a'' ''role-a'' \<lparr>maxDepth = None\<rparr>"
proof -
  have 1: "''admin'' \<noteq> []" and 2: "''role-a'' \<noteq> []" by simp_all
  have 3: "''admin'' \<notin> set (tl (ancestorChain (mockAdapter baseRoles)
         (Suc (nat (maxDepthOf \<lparr>maxDepth = None\<rparr>))) ''admin''))"
    by (simp add: maxDepthOf_def eval_nat_numeral parentOf_def truthy_def store_defs)
  have 4: "''role-a'' \<in> set (tl (ancestorChain (mockAdapter circularRoles)
         (Suc (nat (maxDepthOf \<lparr>maxDepth = None\<rparr>))) ''role-a''))"
    by (simp add: maxDepthOf_def eval_nat_numeral parentOf_def truthy_def store_defs)
  have 5: "0 \<le> maxDepthOf \<lparr>maxDepth = None\<rparr>" by (simp add: maxDepthOf_def)
  from self_inheritance_iff_on_cycle[OF 1, of "mockAdapter baseRoles" "\<lparr>maxDepth = None\<rparr>"] 3
  have a: "\<not> inheritsFrom (mockAdapter baseRoles) ''admin'' ''admin'' \<lparr>maxDepth = None\<rparr>"
    by blast
  from self_inheritance_iff_on_cycle[OF 2, of "mockAdapter circularRoles" "\<lparr>maxDepth = None\<rparr>"] 4 5
  have b: "inheritsFrom (mockAdapter circularRoles) ''role-a'' ''role-a'' \<lparr>maxDepth = None\<rparr>"
    by blast
  from 1 2 4 a b show ?thesis by blast
qed

text \<open>
  A role on a cycle does inherit from itself: \<^verbatim>\<open>role-a\<close> is the parent of its own
  parent \<^verbatim>\<open>role-b\<close>.
\<close>

theorem self_inheritance_counterexample:
  "inheritsFrom (mockAdapter circularRoles) ''role-a'' ''role-a'' \<lparr>maxDepth = None\<rparr>"
  by (simp add: inheritsFrom_def maxDepthOf_def inheritsTraverse.simps store_defs)

text \<open>
  C5. Depth counts edges, the starting role being at depth 0: \<^verbatim>\<open>resolveRolePermissions\<close>
  fails with the depth error exactly when the walk needs more than \<open>maxDepth\<close> edges,
  that is when no name has repeated within \<open>maxDepth\<close> edges and one more edge is
  there to follow (or \<open>maxDepth\<close> is negative, so that even the start is too deep). On
  the linear chain of the tests: eleven roles resolve with \<open>maxDepth = 10\<close> and twelve do
  not; fifteen roles resolved from the deepest fail with \<open>maxDepth = 5\<close> and, with
  \<open>maxDepth = 20\<close>, return the union of the fifteen roles' direct permissions.
\<close>

theorem depth_counts_edges:
  "((\<exists>x. resolveRolePermissions adapter roleName options
            = Inl (DepthExceeded (maxDepthOf options) x))
     \<longleftrightarrow> (maxDepthOf options < 0
          \<or> (distinct (ancestorChain adapter (nat (maxDepthOf options)) roleName)
             \<and> length (ancestorChain adapter (Suc (nat (maxDepthOf options))) roleName)
                 = Suc (Suc (nat (maxDepthOf options))))))
   \<and> (\<exists>ps. resolveRolePermissions (mockAdapter levelRoles) ''level-10'' \<lparr>maxDepth = Some 10\<rparr>
              = Inr ps)
   \<and> (\<exists>x. resolveRolePermissions (mockAdapter levelRoles) ''level-11'' \<lparr>maxDepth = Some 10\<rparr>
              = Inl (DepthExceeded 10 x))
   \<and> (\<exists>x. resolveRolePermissions (mockAdapter levelRoles) ''level-14'' \<lparr>maxDepth = Some 5\<rparr>
              = Inl (DepthExceeded 5 x))
   \<and> (\<exists>ps. resolveRolePermissions (mockAdapter levelRoles) ''level-14'' \<lparr>maxDepth = Some 20\<rparr>
              = Inr ps
            \<and> set ps = (\<Union>r\<in>set levelNames. directPermissions (mockAdapter levelRoles) r))"
  using depth_exceeded_iff[of adapter roleName options]
  by (simp only: level10_md10 level11_md10 level14_md5 level14_md20 level_permissions_union)
     blast

theorem depth_counts_edges_witness:
  "distinct (ancestorChain (mockAdapter levelRoles) (nat (maxDepthOf \<lparr>maxDepth = Some 5\<rparr>))
      ''level-14'')
   \<and> length (ancestorChain (mockAdapter levelRoles)
        (Suc (nat (maxDepthOf \<lparr>maxDepth = Some 5\<rparr>))) ''level-14'')
       = Suc (Suc (nat (maxDepthOf \<lparr>maxDepth = Some 5\<rparr>)))
   \<and> (\<exists>x. resolveRolePermissions (mockAdapter levelRoles) ''level-14'' \<lparr>maxDepth = Some 5\<rparr>
              = Inl (DepthExceeded (maxDepthOf \<lparr>maxDepth = Some 5\<rparr>) x))"
proof -
  have 1: "distinct (ancestorChain (mockAdapter levelRoles)
      (nat (maxDepthOf \<lparr>maxDepth = Some 5\<rparr>)) ''level-14'')"
    by (simp add: maxDepthOf_def eval_nat_numeral parentOf_def truthy_def store_defs)
  have 2: "length (ancestorChain (mockAdapter levelRoles)
        (Suc (nat (maxDepthOf \<lparr>maxDepth = Some 5\<rparr>))) ''level-14'')
       = Suc (Suc (nat (maxDepthOf \<lparr>maxDepth = Some 5\<rparr>)))"
    by (simp add: maxDepthOf_def eval_nat_numeral parentOf_def truthy_def store_defs)
  from depth_counts_edges[of "mockAdapter levelRoles" "''level-14''" "\<lparr>maxDepth = Some 5\<rparr>"] 1 2
  show ?thesis by blast
qed

text \<open>
  C6. For a role name the store has no document for, \<^verbatim>\<open>resolveRolePermissions\<close> with
  the default options returns the empty permission list and \<^verbatim>\<open>getRoleHierarchy\<close>
  returns the one-element list holding that name; neither raises an error.
\<close>

theorem missing_role_resolves_to_nothing:
  assumes "findRole adapter roleName = None"
  shows "resolveRolePermissions adapter roleName \<lparr>maxDepth = None\<rparr> = Inr []
       \<and> getRoleHierarchy adapter roleName \<lparr>maxDepth = None\<rparr> = Inr [roleName]"
  using assms
  by (simp add: resolveRolePermissions_def getRoleHierarchy_def maxDepthOf_def
        resolveTraverse.simps hierarchyTraverse.simps)

theorem missing_role_resolves_to_nothing_witness:
  "findRole (mockAdapter baseRoles) ''nonexistent'' = None
   \<and> resolveRolePermissions (mockAdapter baseRoles) ''nonexistent'' \<lparr>maxDepth = None\<rparr> = Inr []
   \<and> getRoleHierarchy (mockAdapter baseRoles) ''nonexistent'' \<lparr>maxDepth = None\<rparr>
       = Inr [''nonexistent'']"
proof -
  have 1: "findRole (mockAdapter baseRoles) ''nonexistent'' = None"
    by (simp add: store_defs)
  from missing_role_resolves_to_nothing[OF 1] 1 show ?thesis by simp
qed

text \<open>
  C7. On an adapter with caching enabled, let a first \<^verbatim>\<open>withCache\<close> call for a key invoke
  its fetcher and store the value, with the expiry timestamp (the clock at the write plus
  the ttl in milliseconds). A second call for the key strictly before that timestamp
  returns the stored value without invoking its fetcher, so the two calls fetch exactly
  once. A second call at or after the timestamp, or after \<^verbatim>\<open>clearCache(key)\<close>, invokes
  its fetcher and returns what it fetched. And in any state whatever, an entry whose
  expiry timestamp has passed is not returned: the fetcher is invoked instead.
\<close>

theorem cache_fetches_once_within_ttl:
  fixes this :: "'a BaseAdapter" and other :: "'a BaseAdapter" and fetcher :: "'e + 'a"
  assumes "cache this \<noteq> None"
    and "fetcherCalls (withCache this key (Inr v :: 'e + 'a) firstNow firstStored) = 1"
  defines "after \<equiv> adapterAfter (withCache this key (Inr v :: 'e + 'a) firstNow firstStored)"
    and "expiry \<equiv> firstStored + ttlOf (cacheConfig this) * 1000"
  shows "(secondNow < expiry \<longrightarrow>
            fetcherCalls (withCache this key (Inr v :: 'e + 'a) firstNow firstStored)
              + fetcherCalls (withCache after key fetcher secondNow secondStored) = 1
            \<and> returned (withCache after key fetcher secondNow secondStored) = Inr v)
       \<and> (expiry \<le> secondNow \<longrightarrow>
            fetcherCalls (withCache after key fetcher secondNow secondStored) = 1
            \<and> returned (withCache after key fetcher secondNow secondStored) = fetcher)
       \<and> fetcherCalls (withCache (clearCache after (Some key)) key fetcher secondNow secondStored) = 1
       \<and> returned (withCache (clearCache after (Some key)) key fetcher secondNow secondStored) = fetcher
       \<and> (cache other = Some m \<and> m key = Some entry \<and> expires entry \<le> secondNow \<longrightarrow>
            fetcherCalls (withCache other key fetcher secondNow secondStored) = 1
            \<and> returned (withCache other key fetcher secondNow secondStored) = fetcher)"
proof -
  from assms(1) obtain c where c: "cache this = Some c" by auto
  let ?e = "\<lparr>data = v, expires = expiry\<rparr>"
  have after: "after = this\<lparr>cache := Some (c(key \<mapsto> ?e))\<rparr>"
    unfolding after_def expiry_def by (rule withCache_miss_stores[OF c assms(2)])
  have ac: "cache after = Some (c(key \<mapsto> ?e))" and ak: "(c(key \<mapsto> ?e)) key = Some ?e"
    by (simp_all add: after)
  have 1: "secondNow < expiry \<longrightarrow>
            fetcherCalls (withCache this key (Inr v :: 'e + 'a) firstNow firstStored)
              + fetcherCalls (withCache after key fetcher secondNow secondStored) = 1
            \<and> returned (withCache after key fetcher secondNow secondStored) = Inr v"
  proof
    assume "secondNow < expiry"
    then have "secondNow < expires ?e" by simp
    from withCache_hit[OF ac ak this, of fetcher secondStored] assms(2) show
      "fetcherCalls (withCache this key (Inr v :: 'e + 'a) firstNow firstStored)
              + fetcherCalls (withCache after key fetcher secondNow secondStored) = 1
            \<and> returned (withCache after key fetcher secondNow secondStored) = Inr v" by simp
  qed
  have 2: "expiry \<le> secondNow \<longrightarrow>
            fetcherCalls (withCache after key fetcher secondNow secondStored) = 1
            \<and> returned (withCache after key fetcher secondNow secondStored) = fetcher"
  proof
    assume "expiry \<le> secondNow"
    then have "expires ?e \<le> secondNow" by simp
    from withCache_expired[OF ac ak this] show
      "fetcherCalls (withCache after key fetcher secondNow secondStored) = 1
            \<and> returned (withCache after key fetcher secondNow secondStored) = fetcher" .
  qed
  from clearCache_removes[OF ac, of key] obtain c' where
    cc: "cache (clearCache after (Some key)) = Some c'" and ck: "c' key = None" by blast
  have 3: "fetcherCalls (withCache (clearCache after (Some key)) key fetcher secondNow secondStored) = 1
       \<and> returned (withCache (clearCache after (Some key)) key fetcher secondNow secondStored) = fetcher"
    by (rule withCache_absent[OF cc ck])
  have 4: "cache other = Some m \<and> m key = Some entry \<and> expires entry \<le> secondNow \<longrightarrow>
            fetcherCalls (withCache other key fetcher secondNow secondStored) = 1
            \<and> returned (withCache other key fetcher secondNow secondStored) = fetcher"
    using withCache_expired[of other m key entry secondNow fetcher secondStored] by blast
  from 1 2 3 4 show ?thesis by blast
qed

theorem cache_fetches_once_within_ttl_witness:
  "cache (newBaseAdapter \<lparr>enabled = Some True, ttl = Some 60\<rparr> :: string list BaseAdapter) \<noteq> None
   \<and> fetcherCalls (withCache (newBaseAdapter \<lparr>enabled = Some True, ttl = Some 60\<rparr>)
          ''role:admin'' (Inr [''users.read''] :: string + string list) 1000 1005) = 1
   \<and> (2000::int) < 1005 + ttlOf \<lparr>enabled = Some True, ttl = Some 60\<rparr> * 1000
   \<and> returned (withCache
          (adapterAfter (withCache (newBaseAdapter \<lparr>enabled = Some True, ttl = Some 60\<rparr>)
             ''role:admin'' (Inr [''users.read''] :: string + string list) 1000 1005))
          ''role:admin'' (Inr [''users.delete''] :: string + string list) 2000 2005)
        = Inr [''users.read'']
   \<and> 1005 + ttlOf \<lparr>enabled = Some True, ttl = Some 60\<rparr> * 1000 \<le> (61005::int)
   \<and> returned (withCache
          (adapterAfter (withCache (newBaseAdapter \<lparr>enabled = Some True, ttl = Some 60\<rparr>)
             ''role:admin'' (Inr [''users.read''] :: string + string list) 1000 1005))
          ''role:admin'' (Inr [''users.delete''] :: string + string list) 61005 61010)
        = Inr [''users.delete'']
   \<and> returned (withCache
          (clearCache
             (adapterAfter (withCache (newBaseAdapter \<lparr>enabled = Some True, ttl = Some 60\<rparr>)
                ''role:admin'' (Inr [''users.read''] :: string + string list) 1000 1005))
             (Some ''role:admin''))
          ''role:admin'' (Inr [''users.delete''] :: string + string list) 2000 2005)
        = Inr [''users.delete'']
   \<and> expires \<lparr>data = [''users.stale''], expires = 1500\<rparr> \<le> (2000::int)
   \<and> returned (withCache
          \<lparr>cache = Some [''role:admin'' \<mapsto> \<lparr>data = [''users.stale''], expires = 1500\<rparr>],
            cacheConfig = \<lparr>enabled = Some True, ttl = Some 60\<rparr>\<rparr>
          ''role:admin'' (Inr [''users.delete''] :: string + string list) 2000 2005)
        = Inr [''users.delete'']"
proof -
  let ?stale = "\<lparr>cache = Some [''role:admin'' \<mapsto> \<lparr>data = [''users.stale''], expires = 1500\<rparr>],
            cacheConfig = \<lparr>enabled = Some True, ttl = Some 60\<rparr>\<rparr>"
  have 5: "cache ?stale = Some [''role:admin'' \<mapsto> \<lparr>data = [''users.stale''], expires = 1500\<rparr>]
      \<and> [''role:admin'' \<mapsto> \<lparr>data = [''users.stale''], expires = 1500\<rparr>] ''role:admin''
          = Some \<lparr>data = [''users.stale''], expires = 1500\<rparr>
      \<and> expires \<lparr>data = [''users.stale''], expires = 1500\<rparr> \<le> (2000::int)"
    by simp
  let ?ad = "newBaseAdapter \<lparr>enabled = Some True, ttl = Some 60\<rparr> :: string list BaseAdapter"
  have 1: "cache ?ad \<noteq> None" by (simp add: newBaseAdapter_def)
  have 2: "fetcherCalls (withCache ?ad ''role:admin''
             (Inr [''users.read''] :: string + string list) 1000 1005) = 1"
    by (simp add: withCache_def newBaseAdapter_def)
  have 3: "(2000::int) < 1005 + ttlOf (cacheConfig ?ad) * 1000"
    and 4: "1005 + ttlOf (cacheConfig ?ad) * 1000 \<le> (61005::int)"
    by (simp_all add: ttlOf_def newBaseAdapter_def)
  have c: "cacheConfig ?ad = \<lparr>enabled = Some True, ttl = Some 60\<rparr>"
    by (simp add: newBaseAdapter_def)
  from cache_fetches_once_within_ttl[OF 1 2,
      where secondNow = 2000 and fetcher = "Inr [''users.delete'']" and secondStored = 2005
        and other = ?stale
        and m = "[''role:admin'' \<mapsto> \<lparr>data = [''users.stale''], expires = 1500\<rparr>]"
        and entry = "\<lparr>data = [''users.stale''], expires = 1500\<rparr>"] 3 5
  have a: "returned (withCache (adapterAfter (withCache ?ad ''role:admin''
             (Inr [''users.read''] :: string + string list) 1000 1005))
          ''role:admin'' (Inr [''users.delete''] :: string + string list) 2000 2005)
        = Inr [''users.read'']"
    and b: "returned (withCache (clearCache (adapterAfter (withCache ?ad ''role:admin''
                (Inr [''users.read''] :: string + string list) 1000 1005)) (Some ''role:admin''))
          ''role:admin'' (Inr [''users.delete''] :: string + string list) 2000 2005)
        = Inr [''users.delete'']"
    and e: "returned (withCache ?stale
          ''role:admin'' (Inr [''users.delete''] :: string + string list) 2000 2005)
        = Inr [''users.delete'']"
    by blast+
  from cache_fetches_once_within_ttl[OF 1 2,
      where secondNow = 61005 and fetcher = "Inr [''users.delete'']" and secondStored = 61010] 4
  have d: "returned (withCache (adapterAfter (withCache ?ad ''role:admin''
             (Inr [''users.read''] :: string + string list) 1000 1005))
          ''role:admin'' (Inr [''users.delete''] :: string + string list) 61005 61010)
        = Inr [''users.delete'']"
    by blast
  from 1 2 3 4 5 a b d e show ?thesis unfolding c by blast
qed

text \<open>
  C8, as the code has it. \<^verbatim>\<open>hasAnyPermission(subject, [], adapter)\<close> is false for every
  subject and adapter. \<^verbatim>\<open>hasAllPermissions(subject, [], adapter)\<close> is true exactly for
  the subjects that have a role: the check for a missing role comes first and returns
  false.
\<close>

theorem empty_permission_lists:
  "hasAllPermissions userId [] adapter = truthy (getUserRole adapter userId)
   \<and> hasAnyPermission userId [] adapter = False"
  by (simp add: hasAllPermissions_def hasAnyPermission_def truthy_def split: option.splits)

text \<open>
  For a subject with no assigned role, \<^verbatim>\<open>hasAllPermissions\<close> of the empty list is
  false, not true.
\<close>

theorem empty_all_permissions_counterexample:
  "\<not> hasAllPermissions ''user123'' [] noRoleAdapter"
  by (simp add: hasAllPermissions_def noRoleAdapter_def)

text \<open>
  C9, as the code has it. A list returned by \<^verbatim>\<open>getRoleHierarchy\<close> holds no role name
  twice, and its length is at most \<open>maxDepth + 1\<close>: the bound is on edges, so a chain of
  \<open>maxDepth\<close> edges, which has \<open>maxDepth + 1\<close> names, is still returned.
\<close>

theorem hierarchy_distinct_and_bounded:
  assumes "getRoleHierarchy adapter roleName options = Inr h"
  shows "distinct h \<and> int (length h) \<le> maxDepthOf options + 1"
proof -
  from hierarchy_returns_chain[OF assms]
  have nn: "0 \<le> maxDepthOf options"
    and h: "h = ancestorChain adapter (nat (maxDepthOf options)) roleName"
    and d: "distinct h" by blast+
  from chain_length[of adapter "nat (maxDepthOf options)" roleName] h nn
  have "int (length h) \<le> maxDepthOf options + 1" by simp
  with d show ?thesis by simp
qed


theorem hierarchy_distinct_and_bounded_witness:
  "getRoleHierarchy (mockAdapter baseRoles) ''super-admin'' \<lparr>maxDepth = Some 3\<rparr>
     = Inr [''super-admin'', ''admin'', ''manager'', ''user'']
   \<and> distinct [''super-admin'', ''admin'', ''manager'', ''user'']
   \<and> int (length [''super-admin'', ''admin'', ''manager'', ''user''])
         \<le> maxDepthOf \<lparr>maxDepth = Some 3\<rparr> + 1"
proof -
  have g: "getRoleHierarchy (mockAdapter baseRoles) ''super-admin'' \<lparr>maxDepth = Some 3\<rparr>
     = Inr [''super-admin'', ''admin'', ''manager'', ''user'']"
    by (simp add: getRoleHierarchy_def maxDepthOf_def hierarchyTraverse.simps store_defs)
  from hierarchy_distinct_and_bounded[OF g] g show ?thesis by simp
qed

text \<open>
  The bound \<open>maxDepth\<close> itself does not hold: with \<open>maxDepth = 3\<close> the four-role
  hierarchy of the tests is returned whole.
\<close>

theorem hierarchy_length_counterexample:
  "getRoleHierarchy (mockAdapter baseRoles) ''super-admin'' \<lparr>maxDepth = Some 3\<rparr>
     = Inr [''super-admin'', ''admin'', ''manager'', ''user'']
   \<and> \<not> int (length [''super-admin'', ''admin'', ''manager'', ''user''])
         \<le> maxDepthOf \<lparr>maxDepth = Some 3\<rparr>"
  by (simp add: getRoleHierarchy_def maxDepthOf_def hierarchyTraverse.simps store_defs)

text \<open>
  C10. When the document of \<open>R\<close> names as parent a role \<open>G\<close> (a non-empty name, which
  is what the walk follows) that has no document, \<^verbatim>\<open>getRoleHierarchy\<close> with the default
  options returns \<open>[R, G]\<close>: the name is appended before it is looked up, so the list ends
  with \<open>G\<close>.
\<close>

theorem hierarchy_ends_with_unstored_parent:
  assumes "findRole adapter R = Some role"
    and "inherits role = Some G"
    and "G \<noteq> []"
    and "findRole adapter G = None"
  shows "\<exists>h. getRoleHierarchy adapter R \<lparr>maxDepth = None\<rparr> = Inr h
           \<and> h = [R, G] \<and> last h = G"
proof -
  from assms have "R \<noteq> G" by auto
  with assms have "getRoleHierarchy adapter R \<lparr>maxDepth = None\<rparr> = Inr [R, G]"
    by (simp add: getRoleHierarchy_def maxDepthOf_def hierarchyTraverse.simps)
  then show ?thesis by simp
qed

theorem hierarchy_ends_with_unstored_parent_witness:
  "findRole (mockAdapter danglingRoles) ''editor''
      = Some \<lparr>name = ''editor'', permissions = [''content.edit''], inherits = Some ''ghost''\<rparr>
   \<and> inherits \<lparr>name = ''editor'', permissions = [''content.edit''], inherits = Some ''ghost''\<rparr>
      = Some ''ghost''
   \<and> ''ghost'' \<noteq> []
   \<and> findRole (mockAdapter danglingRoles) ''ghost'' = None
   \<and> getRoleHierarchy (mockAdapter danglingRoles) ''editor'' \<lparr>maxDepth = None\<rparr>
      = Inr [''editor'', ''ghost'']"
proof -
  have 1: "findRole (mockAdapter danglingRoles) ''editor''
      = Some \<lparr>name = ''editor'', permissions = [''content.edit''], inherits = Some ''ghost''\<rparr>"
    by (simp add: mockAdapter_def danglingRoles_def roleDoc_def)
  have 2: "inherits \<lparr>name = ''editor'', permissions = [''content.edit''], inherits = Some ''ghost''\<rparr>
      = Some ''ghost''" by simp
  have 3: "''ghost'' \<noteq> []" by simp
  have 4: "findRole (mockAdapter danglingRoles) ''ghost'' = None"
    by (simp add: mockAdapter_def danglingRoles_def roleDoc_def)
  from hierarchy_ends_with_unstored_parent[OF 1 2 3 4] 1 2 3 4 show ?thesis by simp
qed

end
